theory Spec2Isabelle
  imports Complex_Main "HOL-Library.Multiset"
begin

section \<open>Activities\<close>

text \<open>
  \<^verbatim>\<open>core/activity.ts\<close>: an activity carries an id, the role of its publisher, a
  timestamp and a body whose only field the bus reads is \<^verbatim>\<open>details.action\<close>.
  A \<^verbatim>\<open>Date\<close> is its \<^verbatim>\<open>getTime()\<close> value (milliseconds, an integer).
  A conscious activity adds a priority (an integer, 0 to 9 by the source's comment) and
  \<^verbatim>\<open>readable()\<close>, whose call either returns a string or throws: \<open>None\<close> is the
  throw.

  JavaScript numbers are taken as exact rationals throughout (no rounding, no NaN and no
  infinity in the inputs); where the code itself can produce a non-finite value by a
  division, the model says so explicitly.  Strings are lists of code units.
\<close>

record Activity =
  activity_id :: string
  activity_role :: string
  activity_timestamp :: int
  action :: string

record Conscious = Activity +
  activity_priority :: int
  readable :: "string option"

datatype error = HubNotSet | FocusOutOfRange | Failure string

section \<open>The attention faculty\<close>

subsection \<open>Data\<close>

record AttentionEntry =
  role :: string
  timestamp :: int
  priority :: int
  content :: string

record AttentionConfig =
  maxSize :: rat
  clearPercentage :: rat
  reaction_time :: rat
  size_per_second :: rat
  max_entry_length :: rat

text \<open>
  The two bodies the faculty publishes.  \<open>usage\<close> is \<^verbatim>\<open>currentSize / maxSize\<close>;
  \<open>None\<close> stands for the non-finite quotient JavaScript yields when \<^verbatim>\<open>maxSize\<close> is 0.
\<close>

datatype ActivityBody =
    AttentionCleared
      (clearedEntries: "AttentionEntry list") (clearedCount: int) (totalCount: nat)
      (clearedSize: nat) (remainingSize: nat)
  | AttentionAdd
      (addedEntries: "AttentionEntry list") (add_attentionField: "AttentionEntry list")
      (add_currentSize: nat) (add_maxSize: rat) (usage: "rat option")

text \<open>
  The fields of class \<^verbatim>\<open>Attention\<close>.  \<open>hubPort\<close> is the role of the bound port, if any;
  \<open>pendingActivitiesByRole\<close> is the \<^verbatim>\<open>Map\<close> from role to queue in its key insertion order
  (the order \<^verbatim>\<open>Map\<close> iterates in), each queue held as the list of its entries in the
  order they were enqueued; \<open>paceTimer\<close> tells whether the interval timer is set.
\<close>

record Attention =
  hubPort :: "string option"
  focuses :: "string \<rightharpoonup> rat"
  attentionField :: "AttentionEntry list"
  currentSize :: nat
  pendingActivitiesByRole :: "(string \<times> AttentionEntry list) list"
  paceTimer :: bool

definition initial :: Attention where
  "initial = \<lparr>hubPort = None, focuses = Map.empty, attentionField = [], currentSize = 0,
               pendingActivitiesByRole = [], paceTimer = False\<rparr>"

subsection \<open>Converting and buffering conscious activities\<close>

text \<open>
  \<^verbatim>\<open>consciousToEntry\<close>: \<^verbatim>\<open>content.substring(0, max_entry_length - 3) + '...'\<close> when
  \<^verbatim>\<open>content.length > max_entry_length\<close>.  \<^verbatim>\<open>substring(0, k)\<close> truncates \<open>k\<close> to an
  integer and clamps it to \<open>0 .. length\<close>, which is \<open>take (nat \<lfloor>k\<rfloor>)\<close>.
\<close>

definition consciousToEntry :: "AttentionConfig \<Rightarrow> Conscious \<Rightarrow> AttentionEntry option" where
  "consciousToEntry cfg activity =
     (case readable activity of
        None \<Rightarrow> None
      | Some c \<Rightarrow>
          Some \<lparr>role = activity_role activity,
                timestamp = activity_timestamp activity,
                priority = activity_priority activity,
                content =
                  (if max_entry_length cfg < of_nat (length c)
                   then take (nat \<lfloor>max_entry_length cfg - 3\<rfloor>) c @ ''...''
                   else c)\<rparr>)"

text \<open>Get or create the queue of a role, then enqueue.\<close>

fun enqueue ::
  "string \<Rightarrow> AttentionEntry \<Rightarrow> (string \<times> AttentionEntry list) list
     \<Rightarrow> (string \<times> AttentionEntry list) list" where
  "enqueue r e [] = [(r, [e])]"
| "enqueue r e ((r', q) # rest) =
     (if r' = r then (r', q @ [e]) # rest else (r', q) # enqueue r e rest)"

definition handleConsciousActivity :: "AttentionConfig \<Rightarrow> Conscious \<Rightarrow> Attention \<Rightarrow> Attention" where
  "handleConsciousActivity cfg activity st =
     (case consciousToEntry cfg activity of
        None \<Rightarrow> st
      | Some entry \<Rightarrow>
          st\<lparr>pendingActivitiesByRole := enqueue (role entry) entry (pendingActivitiesByRole st)\<rparr>)"

text \<open>
  Modelled from the spec: \<^verbatim>\<open>MaxPriorityQueue\<close> of the package
  \<^verbatim>\<open>@datastructures-js/priority-queue\<close> is not among the sources.  The spec's data model
  has it as a max-priority queue with ties broken by insertion order, so dequeuing a whole
  queue yields its entries by descending priority, equal priorities in enqueue order
  (\<open>sort_key\<close> is a stable insertion sort).
\<close>

definition dequeueAll :: "AttentionEntry list \<Rightarrow> AttentionEntry list" where
  "dequeueAll q = sort_key (\<lambda>e. - priority e) q"

text \<open>\<^verbatim>\<open>entries.reduce((sum, e) => sum + e.content.length, 0)\<close>\<close>

definition entriesSize :: "AttentionEntry list \<Rightarrow> nat" where
  "entriesSize es = sum_list (map (\<lambda>e. length (content e)) es)"

subsection \<open>Focus\<close>

definition setFacultyFocus :: "string \<Rightarrow> rat \<Rightarrow> Attention \<Rightarrow> error + Attention" where
  "setFacultyFocus facultyName focus st =
     (if focus < 0 \<or> 1 < focus then Inl FocusOutOfRange
      else Inr (st\<lparr>focuses := (focuses st)(facultyName \<mapsto> focus)\<rparr>))"

definition getFacultyFocus :: "Attention \<Rightarrow> string \<Rightarrow> rat" where
  "getFacultyFocus st r = (case focuses st r of None \<Rightarrow> 1 | Some f \<Rightarrow> f)"

subsection \<open>Eviction\<close>

text \<open>
  \<^verbatim>\<open>clearAttentionField\<close>.  \<^verbatim>\<open>splice(0, n)\<close> removes the first \<open>n\<close> entries, none when
  \<open>n\<close> is negative and all when \<open>n\<close> exceeds the length: \<open>take (nat n)\<close> and
  \<open>drop (nat n)\<close>.  The function returns the bodies handed to the port.
\<close>

definition clearCount :: "AttentionConfig \<Rightarrow> Attention \<Rightarrow> int" where
  "clearCount cfg st = \<lfloor>of_nat (length (attentionField st)) * clearPercentage cfg\<rfloor>"

definition clearAttentionField :: "AttentionConfig \<Rightarrow> Attention \<Rightarrow> Attention \<times> ActivityBody list" where
  "clearAttentionField cfg st =
     (if clearCount cfg st = 0 then (st, [])
      else
        let cleared = take (nat (clearCount cfg st)) (attentionField st);
            remaining = drop (nat (clearCount cfg st)) (attentionField st);
            st' = st\<lparr>attentionField := remaining, currentSize := entriesSize remaining\<rparr>
        in (st',
            if hubPort st' \<noteq> None
            then [AttentionCleared cleared (clearCount cfg st) (length (attentionField st))
                    (entriesSize cleared) (currentSize st')]
            else []))"

subsection \<open>The admission tick\<close>

definition maxAddSize :: "AttentionConfig \<Rightarrow> rat" where
  "maxAddSize cfg = size_per_second cfg * (reaction_time cfg / 1000)"

text \<open>
  \<^verbatim>\<open>Math.floor(maxAddSize * (roleFocus / totalFocus))\<close>.  When \<^verbatim>\<open>totalFocus\<close> is 0 the
  quotient is not finite in JavaScript: NaN for 0/0, otherwise an infinity whose sign the
  product with \<^verbatim>\<open>maxAddSize\<close> keeps or flips (and NaN again when \<^verbatim>\<open>maxAddSize\<close> is 0).
  A comparison \<^verbatim>\<open>n <= x\<close> is false for NaN and for minus infinity, true for plus infinity.
\<close>

datatype roleShare = Chars int | PlusInfinity | MinusInfinity | NaN

definition roleMaxSize :: "rat \<Rightarrow> rat \<Rightarrow> rat \<Rightarrow> roleShare" where
  "roleMaxSize maxAdd roleFocus totalFocus =
     (if totalFocus \<noteq> 0 then Chars \<lfloor>maxAdd * (roleFocus / totalFocus)\<rfloor>
      else if roleFocus = 0 \<or> maxAdd = 0 then NaN
      else if (0 < roleFocus) = (0 < maxAdd) then PlusInfinity
      else MinusInfinity)"

fun fitsWithin :: "nat \<Rightarrow> roleShare \<Rightarrow> bool" where
  "fitsWithin n (Chars m) = (int n \<le> m)"
| "fitsWithin n PlusInfinity = True"
| "fitsWithin n MinusInfinity = False"
| "fitsWithin n NaN = False"

text \<open>
  The inner loop over one role's entries: an entry is pushed to \<^verbatim>\<open>toAdd\<close> when
  \<^verbatim>\<open>roleAddedSize + entrySize <= roleMaxSize\<close>, otherwise enqueued again.  The result is
  the pair (admitted, re-enqueued), each in the order the loop met them.
\<close>

fun selectEntries ::
  "roleShare \<Rightarrow> nat \<Rightarrow> AttentionEntry list \<Rightarrow> AttentionEntry list \<times> AttentionEntry list" where
  "selectEntries share roleAddedSize [] = ([], [])"
| "selectEntries share roleAddedSize (e # es) =
     (if fitsWithin (roleAddedSize + length (content e)) share
      then (case selectEntries share (roleAddedSize + length (content e)) es of
              (adm, req) \<Rightarrow> (e # adm, req))
      else (case selectEntries share roleAddedSize es of
              (adm, req) \<Rightarrow> (adm, e # req)))"

definition totalPendingSize :: "Attention \<Rightarrow> nat" where
  "totalPendingSize st =
     sum_list (map (\<lambda>(r, q). entriesSize (dequeueAll q)) (pendingActivitiesByRole st))"

definition totalFocus :: "Attention \<Rightarrow> rat" where
  "totalFocus st = sum_list (map (\<lambda>(r, q). getFacultyFocus st r) (pendingActivitiesByRole st))"

definition allotted :: "AttentionConfig \<Rightarrow> Attention \<Rightarrow> string \<Rightarrow> roleShare" where
  "allotted cfg st r = roleMaxSize (maxAddSize cfg) (getFacultyFocus st r) (totalFocus st)"

text \<open>
  Steps 1 to 3 of \<^verbatim>\<open>processPendingActivities\<close>: every queue is drained; when the total
  fits the budget everything is admitted, otherwise each role of the map gets its share.
  The result is \<^verbatim>\<open>toAdd\<close> (before it is sorted) and the pending map as the loops leave it.
\<close>

definition allocate ::
  "AttentionConfig \<Rightarrow> Attention \<Rightarrow> AttentionEntry list \<times> (string \<times> AttentionEntry list) list" where
  "allocate cfg st =
     (if of_nat (totalPendingSize st) \<le> maxAddSize cfg
      then (concat (map (\<lambda>(r, q). dequeueAll q) (pendingActivitiesByRole st)),
            map (\<lambda>(r, q). (r, [])) (pendingActivitiesByRole st))
      else (concat (map (\<lambda>(r, q). fst (selectEntries (allotted cfg st r) 0 (dequeueAll q)))
                      (pendingActivitiesByRole st)),
            map (\<lambda>(r, q). (r, snd (selectEntries (allotted cfg st r) 0 (dequeueAll q))))
              (pendingActivitiesByRole st)))"

text \<open>
  Steps 4 to 8: the admitted entries are sorted by timestamp (\<^verbatim>\<open>Array.prototype.sort\<close>
  is stable), the field is cleared once if \<^verbatim>\<open>currentSize + addedSize > maxSize\<close>, the
  entries are pushed and the add body is published.  The tick is taken as one atomic step:
  its only \<^verbatim>\<open>await\<close> is on \<^verbatim>\<open>clearAttentionField\<close>, which awaits nothing, and the
  port's \<^verbatim>\<open>appendActivity\<close> is taken to return.
\<close>

definition processPendingActivities ::
  "AttentionConfig \<Rightarrow> Attention \<Rightarrow> Attention \<times> ActivityBody list" where
  "processPendingActivities cfg st =
     (let st0 = st\<lparr>pendingActivitiesByRole := snd (allocate cfg st)\<rparr>;
          addedSize = entriesSize (fst (allocate cfg st));
          toAdd = sort_key timestamp (fst (allocate cfg st));
          cleared = (if maxSize cfg < of_nat (currentSize st0 + addedSize)
                     then clearAttentionField cfg st0 else (st0, []));
          st2 = (fst cleared)\<lparr>attentionField := attentionField (fst cleared) @ toAdd,
                               currentSize := currentSize (fst cleared) + addedSize\<rparr>
      in (st2,
          snd cleared @
          (if hubPort st2 \<noteq> None
           then [AttentionAdd toAdd (attentionField st2) (currentSize st2) (maxSize cfg)
                   (if maxSize cfg = 0 then None
                    else Some (of_nat (currentSize st2) / maxSize cfg))]
           else [])))"

subsection \<open>Lifecycle and the operations as a whole\<close>

definition startPaceTimer :: "Attention \<Rightarrow> Attention" where
  "startPaceTimer st = (if paceTimer st then st else st\<lparr>paceTimer := True\<rparr>)"

definition stopPaceTimer :: "Attention \<Rightarrow> Attention" where
  "stopPaceTimer st = (if paceTimer st then st\<lparr>paceTimer := False\<rparr> else st)"

definition stop :: "Attention \<Rightarrow> Attention" where
  "stop st = (stopPaceTimer st)\<lparr>attentionField := [], pendingActivitiesByRole := [],
                                 currentSize := 0\<rparr>"

text \<open>
  How a call ends: a synchronous method returns or throws; an \<^verbatim>\<open>async\<close> method
  hands back a promise that resolves or, when its body throws, rejects.
\<close>

datatype 'a completion = Returns 'a | Throws error | Resolves 'a | Rejects error

datatype operation =
    SetHub string
  | UnsetHub
  | Start
  | Stop
  | Sleep
  | WakeUp
  | SetFacultyFocus string rat
  | GetFacultyFocus string
  | HandleConsciousActivity Conscious
  | ProcessPendingActivities

fun perform :: "AttentionConfig \<Rightarrow> operation \<Rightarrow> Attention \<Rightarrow> Attention completion" where
  "perform cfg (SetHub p) st = Returns (st\<lparr>hubPort := Some p\<rparr>)"
| "perform cfg UnsetHub st = Returns (st\<lparr>hubPort := None\<rparr>)"
| "perform cfg Start st =
     (case hubPort st of None \<Rightarrow> Rejects HubNotSet | Some p \<Rightarrow> Resolves (startPaceTimer st))"
| "perform cfg Stop st = Resolves (stop st)"
| "perform cfg Sleep st = Resolves st"
| "perform cfg WakeUp st = Resolves st"
| "perform cfg (SetFacultyFocus r v) st =
     (case setFacultyFocus r v st of Inl e \<Rightarrow> Throws e | Inr st' \<Rightarrow> Returns st')"
| "perform cfg (GetFacultyFocus r) st = Returns st"
| "perform cfg (HandleConsciousActivity a) st = Resolves (handleConsciousActivity cfg a st)"
| "perform cfg ProcessPendingActivities st = Resolves (fst (processPendingActivities cfg st))"

fun stateAfter :: "Attention completion \<Rightarrow> Attention \<Rightarrow> Attention" where
  "stateAfter (Returns st') st = st'"
| "stateAfter (Resolves st') st = st'"
| "stateAfter (Throws e) st = st"
| "stateAfter (Rejects e) st = st"

definition run :: "AttentionConfig \<Rightarrow> operation list \<Rightarrow> Attention" where
  "run cfg ops = foldl (\<lambda>st op. stateAfter (perform cfg op st) st) initial ops"

section \<open>The hub\<close>

text \<open>
  Class \<^verbatim>\<open>HubImpl\<close>, the version with \<^verbatim>\<open>handlers_of_role\<close> and \<^verbatim>\<open>all_handlers\<close>.
  A handler's \<^verbatim>\<open>condition\<close> is a filter function or a mask; a filter may throw.
  \<^verbatim>\<open>handle(activity)\<close> is typed \<^verbatim>\<open>Promise<void>\<close>: the call hands back a promise that
  fulfils, hands back one that rejects (the case of an \<^verbatim>\<open>async\<close> body that throws), or,
  for a function that is not \<^verbatim>\<open>async\<close>, throws before any promise exists.  Handlers are
  taken not to call back into the hub while they are being dispatched.
\<close>

datatype LogEntry =
    WarnNotStarted
  | WarnUnregisteredFaculty string
  | DebugActivityAdded string string
  | DebugTriggerHandler string
  | ErrorHandlerFailed string string string string

datatype HandleResult = Fulfilled | Rejected string | Thrown string

datatype 'a Condition =
    Filter "'a Activity_scheme \<Rightarrow> error + bool"
  | Mask "string option" "string option"

record 'a ActivityHandler =
  condition :: "'a Condition"
  handler_role :: string
  description :: string
  handle :: "'a Activity_scheme \<Rightarrow> HandleResult"

text \<open>
  \<open>all_handlers\<close> is the \<^verbatim>\<open>Set\<close> in insertion order, the order \<^verbatim>\<open>Array.from\<close> reads
  it in; \<open>faculties\<close> keeps the keys of the faculty map; \<open>logger\<close> is what has been logged.
\<close>

record 'a HubImpl =
  faculties :: "string set"
  running :: bool
  handlers_of_role :: "string \<rightharpoonup> 'a ActivityHandler list"
  all_handlers :: "'a ActivityHandler list"
  logger :: "LogEntry list"

definition matchCondition :: "'a Activity_scheme \<Rightarrow> string option \<Rightarrow> string option \<Rightarrow> bool" where
  "matchCondition activity mask_role mask_verb =
     (if mask_role \<noteq> None \<and> Some (activity_role activity) \<noteq> mask_role then False
      else if mask_verb \<noteq> None \<and> Some (action activity) \<noteq> mask_verb then False
      else True)"

definition isMatch :: "'a ActivityHandler \<Rightarrow> 'a Activity_scheme \<Rightarrow> error + bool" where
  "isMatch handler activity =
     (case condition handler of
        Filter f \<Rightarrow> f activity
      | Mask r v \<Rightarrow> Inr (matchCondition activity r v))"

text \<open>
  Step 1 of \<^verbatim>\<open>triggerHandlers\<close>: \<^verbatim>\<open>Array.from(this.all_handlers).filter(...)\<close>.  A
  filter that throws ends the whole call.
\<close>

fun matchedHandlers ::
  "'a ActivityHandler list \<Rightarrow> 'a Activity_scheme \<Rightarrow> error + 'a ActivityHandler list" where
  "matchedHandlers [] activity = Inr []"
| "matchedHandlers (h # hs) activity =
     (case isMatch h activity of
        Inl e \<Rightarrow> Inl e
      | Inr b \<Rightarrow>
          (case matchedHandlers hs activity of
             Inl e \<Rightarrow> Inl e
           | Inr ms \<Rightarrow> Inr (if b then h # ms else ms)))"

text \<open>
  Step 2: \<^verbatim>\<open>matchedHandlers.map(handler => handler.handle(activity).catch(...))\<close>, one
  handler after the other.  \<^verbatim>\<open>.catch\<close> is attached to the promise \<^verbatim>\<open>handle\<close> returns:
  a rejection is logged (when the promise settles; the log is kept in dispatch order here),
  a throw out of \<^verbatim>\<open>handle\<close> itself leaves \<^verbatim>\<open>map\<close> at once.  The result records how the
  call ended, the handlers whose \<^verbatim>\<open>handle\<close> was called, and the log entries.
\<close>

record 'a Dispatch =
  outcome :: "error + unit"
  invoked :: "'a ActivityHandler list"
  logged :: "LogEntry list"

fun invokeAll :: "'a ActivityHandler list \<Rightarrow> 'a Activity_scheme \<Rightarrow> 'a Dispatch" where
  "invokeAll [] activity = \<lparr>outcome = Inr (), invoked = [], logged = []\<rparr>"
| "invokeAll (h # hs) activity =
     (case handle h activity of
        Thrown e \<Rightarrow>
          \<lparr>outcome = Inl (Failure e), invoked = [h],
           logged = [DebugTriggerHandler (description h)]\<rparr>
      | Rejected e \<Rightarrow>
          (let rest = invokeAll hs activity
           in rest\<lparr>invoked := h # invoked rest,
                   logged := DebugTriggerHandler (description h) #
                             ErrorHandlerFailed (description h) e (activity_role activity)
                               (action activity) # logged rest\<rparr>)
      | Fulfilled \<Rightarrow>
          (let rest = invokeAll hs activity
           in rest\<lparr>invoked := h # invoked rest,
                   logged := DebugTriggerHandler (description h) # logged rest\<rparr>))"

definition triggerHandlers :: "'a HubImpl \<Rightarrow> 'a Activity_scheme \<Rightarrow> 'a Dispatch" where
  "triggerHandlers hub activity =
     (case matchedHandlers (all_handlers hub) activity of
        Inl e \<Rightarrow> \<lparr>outcome = Inl e, invoked = [], logged = []\<rparr>
      | Inr ms \<Rightarrow> invokeAll ms activity)"

text \<open>
  \<^verbatim>\<open>appendActivity\<close> returns how the call ended for the publisher, the hub afterwards and
  the handlers that were invoked.
\<close>

definition appendActivity ::
  "'a HubImpl \<Rightarrow> 'a Activity_scheme \<Rightarrow> (error + unit) \<times> 'a HubImpl \<times> 'a ActivityHandler list" where
  "appendActivity hub activity =
     (if \<not> running hub then (Inr (), hub\<lparr>logger := logger hub @ [WarnNotStarted]\<rparr>, [])
      else
        let warned = (if activity_role activity \<notin> faculties hub
                      then [WarnUnregisteredFaculty (activity_role activity)] else []);
            added = [DebugActivityAdded (activity_role activity) (action activity)];
            d = triggerHandlers hub activity
        in (outcome d, hub\<lparr>logger := logger hub @ warned @ added @ logged d\<rparr>, invoked d))"

text \<open>
  A handler that, on this activity, neither throws from its filter nor throws from
  \<^verbatim>\<open>handle\<close> before returning its promise.
\<close>

definition wellBehaved :: "'a ActivityHandler \<Rightarrow> 'a Activity_scheme \<Rightarrow> bool" where
  "wellBehaved h activity =
     ((isMatch h activity = Inr True \<or> isMatch h activity = Inr False) \<and>
      (handle h activity = Fulfilled \<or> (\<exists>e. handle h activity = Rejected e)))"

section \<open>Predicates and examples\<close>

subsection \<open>Predicates used by the statements about the attention faculty\<close>

text \<open>The controller's size counter agrees with the field it counts.\<close>

definition sizeConsistent :: "Attention \<Rightarrow> bool" where
  "sizeConsistent st = (currentSize st = entriesSize (attentionField st))"

text \<open>The test of step 6: \<^verbatim>\<open>this.currentSize + addedSize > this.config.maxSize\<close>.\<close>

definition overflows :: "AttentionConfig \<Rightarrow> Attention \<Rightarrow> bool" where
  "overflows cfg st =
     (maxSize cfg < of_nat (currentSize st + entriesSize (fst (allocate cfg st))))"

text \<open>\<^verbatim>\<open>pendingActivitiesByRole.get(role)\<close>, a role without a queue having nothing pending.\<close>

definition queueOf :: "(string \<times> AttentionEntry list) list \<Rightarrow> string \<Rightarrow> AttentionEntry list" where
  "queueOf p r = (case map_of p r of None \<Rightarrow> [] | Some q \<Rightarrow> q)"

text \<open>
  What a \<^verbatim>\<open>Map\<close> filled by \<^verbatim>\<open>handleConsciousActivity\<close> looks like: one queue per
  role, holding entries of that role only.
\<close>

definition queuesByRole :: "(string \<times> AttentionEntry list) list \<Rightarrow> bool" where
  "queuesByRole p =
     (distinct (map fst p) \<and> (\<forall>(r, q) \<in> set p. \<forall>e \<in> set q. role e = r))"

text \<open>
  The share as the specification words it, to compare with \<open>allotted\<close>: the budget times
  the role's focus over the total focus, \<^emph>\<open>summed over the roles that have pending
  entries\<close>.
\<close>

definition spec_totalFocus :: "Attention \<Rightarrow> rat" where
  "spec_totalFocus st =
     sum_list (map (\<lambda>(r, q). getFacultyFocus st r)
                 (filter (\<lambda>(r, q). q \<noteq> []) (pendingActivitiesByRole st)))"

definition spec_share :: "AttentionConfig \<Rightarrow> Attention \<Rightarrow> string \<Rightarrow> rat" where
  "spec_share cfg st r = maxAddSize cfg * getFacultyFocus st r / spec_totalFocus st"

subsection \<open>Configurations and inputs of the examples\<close>

text \<open>\<^verbatim>\<open>defaultConfig\<close> of the source: a budget of 500 * (200 / 1000) = 100 characters a tick.\<close>

definition defaultConfig :: AttentionConfig where
  "defaultConfig = \<lparr>maxSize = 10000, clearPercentage = 1 / 2, reaction_time = 200,
                     size_per_second = 500, max_entry_length = 1000\<rparr>"

definition smallField :: AttentionConfig where
  "smallField = defaultConfig\<lparr>maxSize := 100\<rparr>"

definition tinyLimit :: AttentionConfig where
  "tinyLimit = defaultConfig\<lparr>max_entry_length := 2\<rparr>"

definition tenLimit :: AttentionConfig where
  "tenLimit = defaultConfig\<lparr>max_entry_length := 10\<rparr>"

definition conscious :: "string \<Rightarrow> int \<Rightarrow> int \<Rightarrow> string \<Rightarrow> Conscious" where
  "conscious r t p c = \<lparr>activity_id = [], activity_role = r, activity_timestamp = t,
                        action = ''say'', activity_priority = p, readable = Some c\<rparr>"

text \<open>
  The spec's eviction scenario: ten entries of ten characters each are buffered; a tick
  admits them all (100 characters, the budget); an eleventh arrives.
\<close>

definition tenEntries :: "operation list" where
  "tenEntries =
     map (\<lambda>t. HandleConsciousActivity (conscious ''A'' t 5 (replicate 10 CHR ''x'')))
       [1, 2, 3, 4, 5, 6, 7, 8, 9, 10]"

definition fullFieldOps :: "operation list" where
  "fullFieldOps =
     tenEntries @
     [ProcessPendingActivities,
      HandleConsciousActivity (conscious ''A'' 11 5 (replicate 10 CHR ''x''))]"

text \<open>One 100-character entry is admitted, then a 10-character one.\<close>

definition overfullOps :: "operation list" where
  "overfullOps =
     [HandleConsciousActivity (conscious ''A'' 1 5 (replicate 100 CHR ''x'')),
      ProcessPendingActivities,
      HandleConsciousActivity (conscious ''A'' 2 5 (replicate 10 CHR ''x'')),
      ProcessPendingActivities]"

definition startOps :: "operation list" where
  "startOps = [SetHub ''attention'', Start]"

definition evictionOps :: "operation list" where
  "evictionOps = startOps @ fullFieldOps"

text \<open>
  Two 60-character entries of one role against a budget of 100: the one of priority 9 is
  admitted by the first tick, the older one of priority 1 is deferred to the second.
\<close>

definition deferredOps :: "operation list" where
  "deferredOps =
     [HandleConsciousActivity (conscious ''A'' 1 1 (replicate 60 CHR ''x'')),
      HandleConsciousActivity (conscious ''A'' 2 9 (replicate 60 CHR ''x'')),
      ProcessPendingActivities,
      ProcessPendingActivities]"

text \<open>
  Role A had one entry admitted by an earlier tick and has nothing pending; role B has two
  60-character entries pending.
\<close>

definition idleRoleOps :: "operation list" where
  "idleRoleOps =
     [HandleConsciousActivity (conscious ''A'' 1 5 (replicate 10 CHR ''x'')),
      ProcessPendingActivities,
      HandleConsciousActivity (conscious ''B'' 2 5 (replicate 60 CHR ''x'')),
      HandleConsciousActivity (conscious ''B'' 3 5 (replicate 60 CHR ''x''))]"

text \<open>
  The spec's fairness scenario: role A with 200 pending characters (four entries of 50, of
  priorities 1, 9, 5 and 3), role B with 50, both of focus 1, against a budget of 100.
\<close>

definition contendedOps :: "operation list" where
  "contendedOps =
     [HandleConsciousActivity (conscious ''A'' 1 1 (replicate 50 CHR ''x'')),
      HandleConsciousActivity (conscious ''A'' 2 9 (replicate 50 CHR ''x'')),
      HandleConsciousActivity (conscious ''A'' 3 5 (replicate 50 CHR ''x'')),
      HandleConsciousActivity (conscious ''A'' 4 3 (replicate 50 CHR ''x'')),
      HandleConsciousActivity (conscious ''B'' 5 5 (replicate 50 CHR ''x''))]"

subsection \<open>Hubs and handlers of the examples\<close>

definition plainActivity :: Activity where
  "plainActivity = \<lparr>activity_id = ''clock-120000-0001'', activity_role = ''clock'',
                     activity_timestamp = 0, action = ''tick''\<rparr>"

text \<open>A handler whose \<^verbatim>\<open>handle\<close> is not \<^verbatim>\<open>async\<close> and throws at once.\<close>

definition throwingHandler :: "unit ActivityHandler" where
  "throwingHandler = \<lparr>condition = Mask None None, handler_role = ''memory'',
                       description = ''faulty'', handle = (\<lambda>a. Thrown ''boom'')\<rparr>"

text \<open>A handler whose promise rejects.\<close>

definition rejectingHandler :: "unit ActivityHandler" where
  "rejectingHandler = \<lparr>condition = Mask None None, handler_role = ''memory'',
                        description = ''rejecting'', handle = (\<lambda>a. Rejected ''late'')\<rparr>"

definition healthyHandler :: "unit ActivityHandler" where
  "healthyHandler = \<lparr>condition = Mask None (Some ''tick''), handler_role = ''mind'',
                      description = ''healthy'', handle = (\<lambda>a. Fulfilled)\<rparr>"

definition faultyHub :: "unit HubImpl" where
  "faultyHub = \<lparr>faculties = {''clock'', ''memory'', ''mind''}, running = True,
      handlers_of_role = [''memory'' \<mapsto> [throwingHandler], ''mind'' \<mapsto> [healthyHandler]],
      all_handlers = [throwingHandler, healthyHandler], logger = []\<rparr>"

text \<open>A running hub on which the role \<^verbatim>\<open>clock\<close> is not a registered faculty.\<close>

definition isolatingHub :: "unit HubImpl" where
  "isolatingHub = \<lparr>faculties = {''memory'', ''mind''}, running = True,
      handlers_of_role = [''memory'' \<mapsto> [rejectingHandler], ''mind'' \<mapsto> [healthyHandler]],
      all_handlers = [rejectingHandler, healthyHandler], logger = []\<rparr>"

section \<open>Properties of the attention faculty\<close>

subsection \<open>Sizes and selection\<close>

lemma entriesSize_simps [simp]:
  "entriesSize [] = 0"
  "entriesSize (e # es) = length (content e) + entriesSize es"
  "entriesSize (xs @ ys) = entriesSize xs + entriesSize ys"
  by (simp_all add: entriesSize_def)

lemma entriesSize_sort_key [simp]: "entriesSize (sort_key f es) = entriesSize es"
proof -
  have "mset (map (\<lambda>e. length (content e)) (sort_key f es)) = mset (map (\<lambda>e. length (content e)) es)"
    by simp
  then show ?thesis unfolding entriesSize_def by (metis sum_mset_sum_list)
qed

lemma entriesSize_take_drop: "entriesSize (take n es) + entriesSize (drop n es) = entriesSize es"
  by (metis append_take_drop_id entriesSize_simps(3))

lemma selectEntries_Cons_fst:
  "fst (selectEntries sh n (e # es)) =
     (if fitsWithin (n + length (content e)) sh
      then e # fst (selectEntries sh (n + length (content e)) es)
      else fst (selectEntries sh n es))"
  by (simp split: prod.splits)

lemma selectEntries_Cons_snd:
  "snd (selectEntries sh n (e # es)) =
     (if fitsWithin (n + length (content e)) sh
      then snd (selectEntries sh (n + length (content e)) es)
      else e # snd (selectEntries sh n es))"
  by (simp split: prod.splits)

lemmas selectEntries_Cons = selectEntries_Cons_fst selectEntries_Cons_snd

lemma selectEntries_mset:
  "mset (fst (selectEntries sh n es)) + mset (snd (selectEntries sh n es)) = mset es"
  by (induction es arbitrary: n) (simp_all add: selectEntries_Cons del: selectEntries.simps(2))

lemma selectEntries_length:
  "length (fst (selectEntries sh n es)) + length (snd (selectEntries sh n es)) = length es"
  by (induction es arbitrary: n) (simp_all add: selectEntries_Cons del: selectEntries.simps(2))

lemma selectEntries_set:
  "set (fst (selectEntries sh n es)) \<subseteq> set es" "set (snd (selectEntries sh n es)) \<subseteq> set es"
  by (induction es arbitrary: n) (auto simp: selectEntries_Cons simp del: selectEntries.simps(2))

lemma selectEntries_bound:
  "fst (selectEntries (Chars m) n es) \<noteq> [] \<Longrightarrow>
     int (n + entriesSize (fst (selectEntries (Chars m) n es))) \<le> m"
proof (induction es arbitrary: n)
  case Nil
  then show ?case by simp
next
  case (Cons e es)
  show ?case
  proof (cases "fitsWithin (n + length (content e)) (Chars m)")
    case True
    show ?thesis
    proof (cases "fst (selectEntries (Chars m) (n + length (content e)) es) = []")
      case True
      with \<open>fitsWithin (n + length (content e)) (Chars m)\<close> show ?thesis
        by (simp add: selectEntries_Cons del: selectEntries.simps(2))
    next
      case False
      from Cons.IH [OF False] True show ?thesis
        by (simp add: selectEntries_Cons add.assoc del: selectEntries.simps(2))
    qed
  next
    case False
    with Cons show ?thesis by (simp add: selectEntries_Cons del: selectEntries.simps(2))
  qed
qed

subsection \<open>Truncation\<close>

text \<open>
  C6, as the claim states it, fails for a limit below the marker's length: with
  \<^verbatim>\<open>max_entry_length = 2\<close> the rendering \<^verbatim>\<open>abcd\<close> (longer than 2) is stored as the
  marker alone, three characters and not two.
\<close>

theorem truncation_counterexample:
  "max_entry_length tinyLimit = 2 \<and>
   max_entry_length tinyLimit < of_nat (length ''abcd'') \<and>
   map_option content (consciousToEntry tinyLimit (conscious ''A'' 1 5 ''abcd'')) = Some ''...'' \<and>
   length ''...'' = 3"
  by (simp add: tinyLimit_def defaultConfig_def conscious_def consciousToEntry_def)

text \<open>
  C6 (amended): for every integer \<^verbatim>\<open>max_entry_length\<close> of at least 3 and every conscious
  activity whose \<^verbatim>\<open>readable()\<close> returns, an entry is stored; when the rendering is longer
  than the limit its content is exactly \<^verbatim>\<open>max_entry_length\<close> characters long, namely the
  first \<^verbatim>\<open>max_entry_length - 3\<close> characters of the rendering followed by the marker
  \<^verbatim>\<open>...\<close>; a rendering of at most \<^verbatim>\<open>max_entry_length\<close> characters is stored unchanged.
\<close>

theorem truncation_to_max_entry_length:
  assumes "max_entry_length cfg = of_int m" and "3 \<le> m" and "readable a = Some c"
  shows "\<exists>e. consciousToEntry cfg a = Some e \<and>
           (m < int (length c) \<longrightarrow>
              int (length (content e)) = m \<and> content e = take (nat (m - 3)) c @ ''...'') \<and>
           (int (length c) \<le> m \<longrightarrow> content e = c)"
proof -
  have lt: "(rat_of_int m < of_nat (length c)) = (m < int (length c))"
    by (metis of_int_less_iff of_int_of_nat_eq)
  have fl: "\<lfloor>rat_of_int m - 3\<rfloor> = m - 3"
    by (metis floor_of_int of_int_diff of_int_numeral)
  show ?thesis using assms
    by (auto simp: consciousToEntry_def lt fl min_def)
qed

text \<open>The spec's instance: a limit of 10 and a rendering of 11 characters.\<close>

theorem truncation_to_max_entry_length_witness:
  "max_entry_length tenLimit = of_int 10 \<and> (3::int) \<le> 10 \<and>
   readable (conscious ''A'' 1 5 ''hello world'') = Some ''hello world'' \<and>
   (10::int) < int (length ''hello world'') \<and>
   (\<exists>e. consciousToEntry tenLimit (conscious ''A'' 1 5 ''hello world'') = Some e \<and>
        int (length (content e)) = 10 \<and>
        content e = take (nat (10 - 3)) ''hello world'' @ ''...'')"
proof -
  have h1: "max_entry_length tenLimit = of_int 10"
    by (simp add: tenLimit_def defaultConfig_def)
  have h2: "(3::int) \<le> 10" by simp
  have h3: "readable (conscious ''A'' 1 5 ''hello world'') = Some ''hello world''"
    by (simp add: conscious_def)
  have h4: "(10::int) < int (length ''hello world'')" by simp
  from truncation_to_max_entry_length [OF h1 h2 h3] h4
  have "\<exists>e. consciousToEntry tenLimit (conscious ''A'' 1 5 ''hello world'') = Some e \<and>
        int (length (content e)) = 10 \<and>
        content e = take (nat (10 - 3)) ''hello world'' @ ''...''"
    by blast
  with h1 h2 h3 h4 show ?thesis by blast
qed

subsection \<open>The shape of one tick\<close>

lemma tick_field:
  "attentionField (fst (processPendingActivities cfg st)) =
     (if overflows cfg st then drop (nat (clearCount cfg st)) (attentionField st)
      else attentionField st) @ sort_key timestamp (fst (allocate cfg st))"
  by (simp add: processPendingActivities_def Let_def clearAttentionField_def clearCount_def
      overflows_def)

lemma tick_currentSize:
  "currentSize (fst (processPendingActivities cfg st)) =
     (if overflows cfg st \<and> clearCount cfg st \<noteq> 0
      then entriesSize (drop (nat (clearCount cfg st)) (attentionField st))
      else currentSize st) + entriesSize (fst (allocate cfg st))"
  by (simp add: processPendingActivities_def Let_def clearAttentionField_def clearCount_def
      overflows_def)

lemma tick_pending:
  "pendingActivitiesByRole (fst (processPendingActivities cfg st)) = snd (allocate cfg st)"
  by (simp add: processPendingActivities_def Let_def clearAttentionField_def)

lemma tick_published:
  "snd (processPendingActivities cfg st) =
     (if overflows cfg st \<and> clearCount cfg st \<noteq> 0 \<and> hubPort st \<noteq> None
      then [AttentionCleared (take (nat (clearCount cfg st)) (attentionField st))
              (clearCount cfg st) (length (attentionField st))
              (entriesSize (take (nat (clearCount cfg st)) (attentionField st)))
              (entriesSize (drop (nat (clearCount cfg st)) (attentionField st)))]
      else []) @
     (if hubPort st \<noteq> None
      then [AttentionAdd (sort_key timestamp (fst (allocate cfg st)))
              (attentionField (fst (processPendingActivities cfg st)))
              (currentSize (fst (processPendingActivities cfg st)))
              (maxSize cfg)
              (if maxSize cfg = 0 then None
               else Some (of_nat (currentSize (fst (processPendingActivities cfg st))) / maxSize cfg))]
      else [])"
  by (simp add: processPendingActivities_def Let_def clearAttentionField_def clearCount_def
      overflows_def)

lemma tick_sizeConsistent:
  "sizeConsistent st \<Longrightarrow> sizeConsistent (fst (processPendingActivities cfg st))"
  by (simp add: sizeConsistent_def tick_field tick_currentSize)

lemma perform_sizeConsistent:
  "sizeConsistent st \<Longrightarrow> sizeConsistent (stateAfter (perform cfg op st) st)"
proof (cases op)
  case ProcessPendingActivities
  assume "sizeConsistent st"
  with ProcessPendingActivities show ?thesis by (simp add: tick_sizeConsistent)
qed (auto simp: sizeConsistent_def startPaceTimer_def stop_def stopPaceTimer_def
      setFacultyFocus_def handleConsciousActivity_def split: option.splits)

lemma run_snoc: "run cfg (ops @ [op]) = stateAfter (perform cfg op (run cfg ops)) (run cfg ops)"
  by (simp add: run_def)

lemma run_sizeConsistent: "sizeConsistent (run cfg ops)"
proof (induction ops rule: rev_induct)
  case Nil
  show ?case by (simp add: run_def initial_def sizeConsistent_def)
next
  case (snoc op ops)
  then show ?case by (simp add: run_snoc perform_sizeConsistent)
qed

subsection \<open>Size accounting\<close>

text \<open>
  C1, as the claim states it, fails in its second half: with \<^verbatim>\<open>maxSize = 100\<close> and
  \<^verbatim>\<open>clearPercentage = 0.5\<close>, a field holding one 100-character entry admits a
  10-character entry; the eviction count is \<open>\<lfloor>1 * 0.5\<rfloor> = 0\<close>, nothing is evicted and the
  tick ends with \<^verbatim>\<open>currentSize = 110\<close>.
\<close>

theorem size_bound_counterexample:
  "maxSize smallField = 100 \<and> currentSize (run smallField overfullOps) = 110 \<and>
   \<not> of_nat (currentSize (run smallField overfullOps)) \<le> maxSize smallField"
  by code_simp

text \<open>
  C1 (amended): after every admission tick, run after any sequence of operations of the
  controller, \<^verbatim>\<open>currentSize\<close> equals the sum of the content lengths of the entries in the
  field.  \<^verbatim>\<open>currentSize \<le> maxSize\<close> holds after a tick that saw no overflow (the size before
  the tick plus the admitted size is at most \<^verbatim>\<open>maxSize\<close>); after a tick that saw one,
  \<^verbatim>\<open>currentSize\<close> is the size of the entries the single eviction left plus the admitted
  size.
\<close>

theorem tick_size_accounting:
  "currentSize (fst (processPendingActivities cfg (run cfg ops))) =
     entriesSize (attentionField (fst (processPendingActivities cfg (run cfg ops)))) \<and>
   (\<not> overflows cfg (run cfg ops) \<longrightarrow>
      of_nat (currentSize (fst (processPendingActivities cfg (run cfg ops)))) \<le> maxSize cfg) \<and>
   (overflows cfg (run cfg ops) \<longrightarrow>
      currentSize (fst (processPendingActivities cfg (run cfg ops))) =
        entriesSize (drop (nat (clearCount cfg (run cfg ops))) (attentionField (run cfg ops))) +
        entriesSize (fst (allocate cfg (run cfg ops))))"
proof -
  let ?st = "run cfg ops"
  have inv: "sizeConsistent ?st" by (rule run_sizeConsistent)
  have a: "currentSize (fst (processPendingActivities cfg ?st)) =
             entriesSize (attentionField (fst (processPendingActivities cfg ?st)))"
    using tick_sizeConsistent [OF inv] by (simp add: sizeConsistent_def)
  have b: "\<not> overflows cfg ?st \<Longrightarrow>
             of_nat (currentSize (fst (processPendingActivities cfg ?st))) \<le> maxSize cfg"
    by (simp add: tick_currentSize overflows_def not_less)
  have c: "overflows cfg ?st \<Longrightarrow>
      currentSize (fst (processPendingActivities cfg ?st)) =
        entriesSize (drop (nat (clearCount cfg ?st)) (attentionField ?st)) +
        entriesSize (fst (allocate cfg ?st))"
    using inv by (simp add: tick_currentSize sizeConsistent_def)
  from a b c show ?thesis by blast
qed

text \<open>
  Both cases occur: the tick that admits the ten buffered entries sees no overflow and ends
  at 100 of 100 characters; the tick that admits the eleventh sees one.
\<close>

theorem tick_size_accounting_witness:
  "\<not> overflows smallField (run smallField tenEntries) \<and>
   of_nat (currentSize (fst (processPendingActivities smallField (run smallField tenEntries))))
     \<le> maxSize smallField \<and>
   overflows smallField (run smallField fullFieldOps) \<and>
   currentSize (fst (processPendingActivities smallField (run smallField fullFieldOps))) =
     entriesSize (drop (nat (clearCount smallField (run smallField fullFieldOps)))
                    (attentionField (run smallField fullFieldOps))) +
     entriesSize (fst (allocate smallField (run smallField fullFieldOps)))"
proof -
  have h1: "\<not> overflows smallField (run smallField tenEntries)" by code_simp
  have h2: "overflows smallField (run smallField fullFieldOps)" by code_simp
  from tick_size_accounting [of smallField tenEntries]
       tick_size_accounting [of smallField fullFieldOps] h1 h2
  show ?thesis by blast
qed

subsection \<open>Queues by role\<close>

lemma set_dequeueAll [simp]: "set (dequeueAll q) = set q"
  by (simp add: dequeueAll_def)

lemma mset_dequeueAll [simp]: "mset (dequeueAll q) = mset q"
  by (simp add: dequeueAll_def)

lemma length_dequeueAll [simp]: "length (dequeueAll q) = length q"
  by (simp add: dequeueAll_def)

lemma queuesByRole_Nil: "queuesByRole []"
  by (simp add: queuesByRole_def)

lemma queuesByRole_Cons:
  "queuesByRole ((r, q) # p) =
     (r \<notin> fst ` set p \<and> (\<forall>e \<in> set q. role e = r) \<and> queuesByRole p)"
  unfolding queuesByRole_def by auto

lemma filter_role_concat:
  assumes "queuesByRole p"
    and "\<And>r' q. (r', q) \<in> set p \<Longrightarrow> set (f r' q) \<subseteq> set q"
  shows "filter (\<lambda>e. role e = r) (concat (map (\<lambda>(r', q). f r' q) p)) =
           (case map_of p r of None \<Rightarrow> [] | Some q \<Rightarrow> f r q)"
  using assms
proof (induction p)
  case Nil
  show ?case by simp
next
  case (Cons x p)
  obtain r' q where x: "x = (r', q)" by (cases x)
  have wfp: "queuesByRole p" and fresh: "r' \<notin> fst ` set p"
    and rq: "\<forall>e \<in> set q. role e = r'"
    using Cons.prems(1) x by (simp_all add: queuesByRole_Cons)
  have sub: "set (f r' q) \<subseteq> set q" using Cons.prems(2) [of r' q] x by simp
  have roles: "\<forall>e \<in> set (f r' q). role e = r'" using rq sub by blast
  have IH: "filter (\<lambda>e. role e = r) (concat (map (\<lambda>(r', q). f r' q) p)) =
              (case map_of p r of None \<Rightarrow> [] | Some q \<Rightarrow> f r q)"
    using Cons.IH [OF wfp] Cons.prems(2) by simp
  show ?case
  proof (cases "r' = r")
    case True
    have "map_of p r = None" using fresh True
      by (simp add: map_of_eq_None_iff)
    moreover have "filter (\<lambda>e. role e = r) (f r' q) = f r' q"
      using roles True by (simp add: filter_id_conv)
    ultimately show ?thesis using IH x True by simp
  next
    case False
    have "filter (\<lambda>e. role e = r) (f r' q) = []"
      using roles False by (simp add: filter_empty_conv)
    then show ?thesis using IH x False by simp
  qed
qed

lemma map_of_keyed_map:
  "map_of (map (\<lambda>(r', q). (r', g r' q)) p) r = map_option (g r) (map_of p r)"
  by (induction p) auto

lemma queuesByRole_map:
  assumes "queuesByRole p"
    and "\<And>r q. (r, q) \<in> set p \<Longrightarrow> set (g r q) \<subseteq> set q"
  shows "queuesByRole (map (\<lambda>(r, q). (r, g r q)) p)"
  using assms
proof (induction p)
  case Nil
  show ?case by (simp add: queuesByRole_Nil)
next
  case (Cons x p)
  obtain r q where x: "x = (r, q)" by (cases x)
  have wfp: "queuesByRole p" and fresh: "r \<notin> fst ` set p"
    and rq: "\<forall>e \<in> set q. role e = r"
    using Cons.prems(1) x by (simp_all add: queuesByRole_Cons)
  have sub: "set (g r q) \<subseteq> set q" using Cons.prems(2) [of r q] x by simp
  have IH: "queuesByRole (map (\<lambda>(r, q). (r, g r q)) p)"
    using Cons.IH [OF wfp] Cons.prems(2) by simp
  have keys: "fst ` set (map (\<lambda>(r, q). (r, g r q)) p) = fst ` set p"
    by (simp add: image_image case_prod_unfold)
  have "\<forall>e \<in> set (g r q). role e = r" using rq sub by blast
  then show ?case using IH fresh keys x by (simp add: queuesByRole_Cons)
qed

lemma allocate_admitted_role:
  assumes wf: "queuesByRole (pendingActivitiesByRole st)"
  shows "filter (\<lambda>e. role e = r) (fst (allocate cfg st)) =
           (case map_of (pendingActivitiesByRole st) r of
              None \<Rightarrow> []
            | Some q \<Rightarrow>
                if of_nat (totalPendingSize st) \<le> maxAddSize cfg then dequeueAll q
                else fst (selectEntries (allotted cfg st r) 0 (dequeueAll q)))"
proof (cases "of_nat (totalPendingSize st) \<le> maxAddSize cfg")
  case True
  have "filter (\<lambda>e. role e = r)
          (concat (map (\<lambda>(r', q). dequeueAll q) (pendingActivitiesByRole st))) =
        (case map_of (pendingActivitiesByRole st) r of None \<Rightarrow> [] | Some q \<Rightarrow> dequeueAll q)"
    by (rule filter_role_concat [OF wf]) simp
  with True show ?thesis by (simp add: allocate_def split: option.splits)
next
  case False
  have "filter (\<lambda>e. role e = r)
          (concat (map (\<lambda>(r', q). fst (selectEntries (allotted cfg st r') 0 (dequeueAll q)))
             (pendingActivitiesByRole st))) =
        (case map_of (pendingActivitiesByRole st) r of
           None \<Rightarrow> []
         | Some q \<Rightarrow> fst (selectEntries (allotted cfg st r) 0 (dequeueAll q)))"
  proof (rule filter_role_concat [OF wf])
    fix r' q
    show "set (fst (selectEntries (allotted cfg st r') 0 (dequeueAll q))) \<subseteq> set q"
      using selectEntries_set(1) [of "allotted cfg st r'" 0 "dequeueAll q"] by simp
  qed
  with False show ?thesis by (simp add: allocate_def split: option.splits)
qed

lemma allocate_requeued_role:
  "queueOf (snd (allocate cfg st)) r =
     (case map_of (pendingActivitiesByRole st) r of
        None \<Rightarrow> []
      | Some q \<Rightarrow>
          if of_nat (totalPendingSize st) \<le> maxAddSize cfg then []
          else snd (selectEntries (allotted cfg st r) 0 (dequeueAll q)))"
  by (simp add: allocate_def queueOf_def map_of_keyed_map split: option.splits)

lemma allocate_wf:
  assumes wf: "queuesByRole (pendingActivitiesByRole st)"
  shows "queuesByRole (snd (allocate cfg st))"
proof (cases "of_nat (totalPendingSize st) \<le> maxAddSize cfg")
  case True
  have "queuesByRole (map (\<lambda>(r, q). (r, [])) (pendingActivitiesByRole st))"
    by (rule queuesByRole_map [OF wf]) simp
  with True show ?thesis by (simp add: allocate_def)
next
  case False
  have "queuesByRole (map (\<lambda>(r, q). (r, snd (selectEntries (allotted cfg st r) 0 (dequeueAll q))))
          (pendingActivitiesByRole st))"
  proof (rule queuesByRole_map [OF wf])
    fix r q
    show "set (snd (selectEntries (allotted cfg st r) 0 (dequeueAll q))) \<subseteq> set q"
      using selectEntries_set(2) [of "allotted cfg st r" 0 "dequeueAll q"] by simp
  qed
  with False show ?thesis by (simp add: allocate_def)
qed

lemma enqueue_keys: "fst ` set (enqueue r e p) = insert r (fst ` set p)"
proof (induction p)
  case Nil
  show ?case by simp
next
  case (Cons x p)
  obtain r' q where x: "x = (r', q)" by (cases x)
  show ?case using Cons.IH by (cases "r' = r") (simp_all add: x insert_commute)
qed

lemma enqueue_wf:
  "queuesByRole p \<Longrightarrow> role e = r \<Longrightarrow> queuesByRole (enqueue r e p)"
proof (induction p)
  case Nil
  then show ?case by (simp add: queuesByRole_Cons queuesByRole_Nil)
next
  case (Cons x p)
  obtain r' q where x: "x = (r', q)" by (cases x)
  have wfp: "queuesByRole p" using Cons.prems(1) x by (simp add: queuesByRole_Cons)
  from Cons.IH [OF wfp Cons.prems(2)] have IH: "queuesByRole (enqueue r e p)" .
  show ?case
  proof (cases "r' = r")
    case True
    then show ?thesis using Cons.prems x by (simp add: queuesByRole_Cons)
  next
    case False
    then show ?thesis using IH Cons.prems(1) x
      by (simp add: queuesByRole_Cons enqueue_keys)
  qed
qed

lemma handle_wf:
  "queuesByRole (pendingActivitiesByRole st) \<Longrightarrow>
   queuesByRole (pendingActivitiesByRole (handleConsciousActivity cfg a st))"
  by (simp add: handleConsciousActivity_def enqueue_wf split: option.splits)

lemma perform_wf:
  assumes "queuesByRole (pendingActivitiesByRole st)"
  shows "queuesByRole (pendingActivitiesByRole (stateAfter (perform cfg op st) st))"
proof (cases op)
  case ProcessPendingActivities
  with assms show ?thesis by (simp add: tick_pending allocate_wf)
next
  case (HandleConsciousActivity a)
  with assms show ?thesis by (simp add: handle_wf)
next
  case Stop
  then show ?thesis by (simp add: stop_def queuesByRole_Nil)
next
  case Start
  with assms show ?thesis by (simp add: startPaceTimer_def split: option.splits)
next
  case (SetFacultyFocus r v)
  with assms show ?thesis by (simp add: setFacultyFocus_def)
qed (use assms in simp_all)

lemma run_wf: "queuesByRole (pendingActivitiesByRole (run cfg ops))"
proof (induction ops rule: rev_induct)
  case Nil
  show ?case by (simp add: run_def initial_def queuesByRole_Nil)
next
  case (snoc op ops)
  then show ?case by (simp add: run_snoc perform_wf)
qed

text \<open>Entries of equal priority leave the queue in the order they entered it.\<close>

lemma dequeueAll_stable:
  "filter (\<lambda>e. priority e = k) (dequeueAll q) = filter (\<lambda>e. priority e = k) q"
  using sort_key_stable [of "\<lambda>e. - priority e" "- k" q] by (simp add: dequeueAll_def)

lemma selectEntries_sorted:
  "sorted (map f es) \<Longrightarrow> sorted (map f (fst (selectEntries sh n es)))"
proof (induction es arbitrary: n)
  case Nil
  show ?case by simp
next
  case (Cons e es)
  have s: "sorted (map f es)" and le: "\<forall>x \<in> set es. f e \<le> f x"
    using Cons.prems by simp_all
  have "\<forall>x \<in> set (fst (selectEntries sh (n + length (content e)) es)). f e \<le> f x"
    using le selectEntries_set(1) [of sh "n + length (content e)" es] by blast
  with Cons.IH [OF s] show ?case
    by (simp add: selectEntries_Cons del: selectEntries.simps(2))
qed

subsection \<open>Weighted shares and deferral\<close>




subsection \<open>Eviction\<close>

lemma clearCount_le_length:
  assumes "0 \<le> clearPercentage cfg" "clearPercentage cfg \<le> 1"
  shows "0 \<le> clearCount cfg st" and "nat (clearCount cfg st) \<le> length (attentionField st)"
proof -
  let ?n = "length (attentionField st)"
  have "0 \<le> of_nat ?n * clearPercentage cfg" using assms(1) by simp
  then show nonneg: "0 \<le> clearCount cfg st" by (simp add: clearCount_def)
  have "of_nat ?n * clearPercentage cfg \<le> of_nat ?n * 1"
    using assms(2) by (intro mult_left_mono) simp_all
  then have "\<lfloor>of_nat ?n * clearPercentage cfg\<rfloor> \<le> \<lfloor>rat_of_nat ?n\<rfloor>"
    by (intro floor_mono) simp
  then have "clearCount cfg st \<le> int ?n" by (simp add: clearCount_def)
  then show "nat (clearCount cfg st) \<le> ?n" by simp
qed



subsection \<open>Order of the field\<close>

text \<open>
  C3, as the claim states it, fails for a deferred entry: the entry with timestamp 1 is
  re-enqueued by the first tick, which admits the entry with timestamp 2; the second tick
  appends it behind.
\<close>

theorem deferred_entry_counterexample:
  "map timestamp (attentionField (run defaultConfig deferredOps)) = [2, 1] \<and>
   \<not> sorted (map timestamp (attentionField (run defaultConfig deferredOps)))"
  by code_simp

text \<open>
  C3 (amended): on every admission tick the admitted entries are sorted by timestamp
  ascending and appended to what eviction left of the field, whose order is kept.  The
  field is timestamp-ascending after the tick whenever it was before the tick and no entry
  in it is later than an admitted one.
\<close>

theorem tick_appends_sorted_batch:
  "sorted (map timestamp (sort_key timestamp (fst (allocate cfg st)))) \<and>
   (\<exists>k. attentionField (fst (processPendingActivities cfg st)) =
           drop k (attentionField st) @ sort_key timestamp (fst (allocate cfg st))) \<and>
   (sorted (map timestamp (attentionField st)) \<and>
    (\<forall>e \<in> set (attentionField st). \<forall>a \<in> set (fst (allocate cfg st)).
        timestamp e \<le> timestamp a) \<longrightarrow>
    sorted (map timestamp (attentionField (fst (processPendingActivities cfg st)))))"
proof -
  let ?batch = "sort_key timestamp (fst (allocate cfg st))"
  let ?k = "if overflows cfg st then nat (clearCount cfg st) else 0"
  have a: "sorted (map timestamp ?batch)" by simp
  have f: "attentionField (fst (processPendingActivities cfg st)) =
             drop ?k (attentionField st) @ ?batch"
    by (simp add: tick_field)
  have c: "sorted (map timestamp (attentionField (fst (processPendingActivities cfg st))))"
    if s: "sorted (map timestamp (attentionField st))"
      and le: "\<forall>e \<in> set (attentionField st). \<forall>a \<in> set (fst (allocate cfg st)).
                 timestamp e \<le> timestamp a"
  proof -
    have "sorted (drop ?k (map timestamp (attentionField st)))"
      using s by (rule sorted_wrt_drop)
    then have d: "sorted (map timestamp (drop ?k (attentionField st)))"
      by (simp add: drop_map)
    have "\<forall>e \<in> set (drop ?k (attentionField st)). \<forall>a \<in> set ?batch. timestamp e \<le> timestamp a"
      using le set_drop_subset [of ?k "attentionField st"] by auto
    with a d show ?thesis unfolding f by (simp add: sorted_append)
  qed
  from a f c show ?thesis by blast
qed

theorem tick_appends_sorted_batch_witness:
  "sorted (map timestamp (attentionField (run smallField evictionOps))) \<and>
   map timestamp (attentionField (run smallField evictionOps)) = [1, 2, 3, 4, 5, 6, 7, 8, 9, 10] \<and>
   map timestamp (fst (allocate smallField (run smallField evictionOps))) = [11] \<and>
   sorted (map timestamp
     (attentionField (fst (processPendingActivities smallField (run smallField evictionOps)))))"
proof -
  have h1: "sorted (map timestamp (attentionField (run smallField evictionOps)))" by code_simp
  have h2: "\<forall>e \<in> set (attentionField (run smallField evictionOps)).
      \<forall>a \<in> set (fst (allocate smallField (run smallField evictionOps))).
        timestamp e \<le> timestamp a" by code_simp
  have c1: "map timestamp (attentionField (run smallField evictionOps)) =
              [1, 2, 3, 4, 5, 6, 7, 8, 9, 10]" by code_simp
  have c2: "map timestamp (fst (allocate smallField (run smallField evictionOps))) = [11]"
    by code_simp
  from tick_appends_sorted_batch [of smallField "run smallField evictionOps"] h1 h2
  have "sorted (map timestamp
     (attentionField (fst (processPendingActivities smallField (run smallField evictionOps)))))"
    by blast
  with h1 c1 c2 show ?thesis by blast
qed

subsection \<open>Raising synchronously\<close>



subsection \<open>Published bodies\<close>

lemma clearCount_pos_length:
  assumes "0 \<le> clearPercentage cfg" and "clearCount cfg st \<noteq> 0"
  shows "0 < nat (clearCount cfg st) \<and> 0 < length (attentionField st)"
proof -
  have "0 \<le> rat_of_nat (length (attentionField st)) * clearPercentage cfg"
    using assms(1) by simp
  then have "0 \<le> clearCount cfg st" by (simp add: clearCount_def)
  with assms(2) have p: "0 < clearCount cfg st" by simp
  have "length (attentionField st) \<noteq> 0"
  proof
    assume "length (attentionField st) = 0"
    then have "clearCount cfg st = 0" by (simp add: clearCount_def)
    with assms(2) show False by simp
  qed
  with p show ?thesis by simp
qed

text \<open>
  C10: with a port bound, every admission tick publishes an add body last, carrying the
  admitted entries (possibly none), the whole field, \<^verbatim>\<open>currentSize\<close>, \<^verbatim>\<open>maxSize\<close> and
  their ratio; a cleared body is published before it exactly when the tick overflowed and
  the eviction count \<open>\<lfloor>length field * clearPercentage\<rfloor>\<close> is not zero, which for a
  \<^verbatim>\<open>clearPercentage\<close> that is not negative is exactly when at least one entry left the
  field.
\<close>

theorem tick_notifications:
  assumes "hubPort st = Some p"
  shows
    "snd (processPendingActivities cfg st) =
       (if overflows cfg st \<and> clearCount cfg st \<noteq> 0
        then [AttentionCleared (take (nat (clearCount cfg st)) (attentionField st))
                (clearCount cfg st) (length (attentionField st))
                (entriesSize (take (nat (clearCount cfg st)) (attentionField st)))
                (entriesSize (drop (nat (clearCount cfg st)) (attentionField st)))]
        else []) @
       [AttentionAdd (sort_key timestamp (fst (allocate cfg st)))
          (attentionField (fst (processPendingActivities cfg st)))
          (currentSize (fst (processPendingActivities cfg st)))
          (maxSize cfg)
          (if maxSize cfg = 0 then None
           else Some (of_nat (currentSize (fst (processPendingActivities cfg st))) / maxSize cfg))] \<and>
     (0 \<le> clearPercentage cfg \<longrightarrow>
        ((overflows cfg st \<and> clearCount cfg st \<noteq> 0) \<longleftrightarrow>
         length (attentionField (fst (processPendingActivities cfg st)))
           < length (attentionField st) + length (fst (allocate cfg st))))"
proof -
  have a: "snd (processPendingActivities cfg st) =
       (if overflows cfg st \<and> clearCount cfg st \<noteq> 0
        then [AttentionCleared (take (nat (clearCount cfg st)) (attentionField st))
                (clearCount cfg st) (length (attentionField st))
                (entriesSize (take (nat (clearCount cfg st)) (attentionField st)))
                (entriesSize (drop (nat (clearCount cfg st)) (attentionField st)))]
        else []) @
       [AttentionAdd (sort_key timestamp (fst (allocate cfg st)))
          (attentionField (fst (processPendingActivities cfg st)))
          (currentSize (fst (processPendingActivities cfg st)))
          (maxSize cfg)
          (if maxSize cfg = 0 then None
           else Some (of_nat (currentSize (fst (processPendingActivities cfg st))) / maxSize cfg))]"
    using assms by (simp add: tick_published)
  have b: "(overflows cfg st \<and> clearCount cfg st \<noteq> 0) \<longleftrightarrow>
         length (attentionField (fst (processPendingActivities cfg st)))
           < length (attentionField st) + length (fst (allocate cfg st))"
    if nn: "0 \<le> clearPercentage cfg"
  proof (cases "overflows cfg st")
    case False
    then show ?thesis by (simp add: tick_field)
  next
    case True
    show ?thesis
    proof (cases "clearCount cfg st = 0")
      case True
      then show ?thesis by (simp add: tick_field)
    next
      case False
      from clearCount_pos_length [OF nn False]
      have "length (attentionField st) - nat (clearCount cfg st) < length (attentionField st)"
        by simp
      with False \<open>overflows cfg st\<close> show ?thesis by (simp add: tick_field)
    qed
  qed
  from a b show ?thesis by blast
qed

text \<open>
  A tick with nothing pending publishes the add body alone, with no entries; the tick of
  the eviction scenario publishes a cleared body of five entries before it.
\<close>

theorem tick_notifications_witness:
  "hubPort (run defaultConfig startOps) = Some ''attention'' \<and>
   pendingActivitiesByRole (run defaultConfig startOps) = [] \<and>
   snd (processPendingActivities defaultConfig (run defaultConfig startOps)) =
     [AttentionAdd [] [] 0 10000 (Some 0)] \<and>
   hubPort (run smallField evictionOps) = Some ''attention'' \<and>
   0 \<le> clearPercentage smallField \<and>
   overflows smallField (run smallField evictionOps) \<and>
   clearCount smallField (run smallField evictionOps) = 5 \<and>
   length (attentionField (fst (processPendingActivities smallField (run smallField evictionOps))))
     < length (attentionField (run smallField evictionOps)) +
       length (fst (allocate smallField (run smallField evictionOps))) \<and>
   map clearedCount (butlast (snd (processPendingActivities smallField (run smallField evictionOps))))
     = [5]"
proof -
  have h1: "hubPort (run defaultConfig startOps) = Some ''attention''" by code_simp
  have c1: "pendingActivitiesByRole (run defaultConfig startOps) = []" by code_simp
  have n1: "\<not> (overflows defaultConfig (run defaultConfig startOps) \<and>
               clearCount defaultConfig (run defaultConfig startOps) \<noteq> 0)" by code_simp
  have e1: "sort_key timestamp (fst (allocate defaultConfig (run defaultConfig startOps))) = []"
    by code_simp
  have e2: "attentionField (fst (processPendingActivities defaultConfig (run defaultConfig startOps))) = []"
    by code_simp
  have e3: "currentSize (fst (processPendingActivities defaultConfig (run defaultConfig startOps))) = 0"
    by code_simp
  have e4: "maxSize defaultConfig = 10000" by code_simp
  from tick_notifications [OF h1, of defaultConfig]
  have "snd (processPendingActivities defaultConfig (run defaultConfig startOps)) =
       (if overflows defaultConfig (run defaultConfig startOps) \<and>
           clearCount defaultConfig (run defaultConfig startOps) \<noteq> 0
        then [AttentionCleared
                (take (nat (clearCount defaultConfig (run defaultConfig startOps)))
                   (attentionField (run defaultConfig startOps)))
                (clearCount defaultConfig (run defaultConfig startOps))
                (length (attentionField (run defaultConfig startOps)))
                (entriesSize (take (nat (clearCount defaultConfig (run defaultConfig startOps)))
                   (attentionField (run defaultConfig startOps))))
                (entriesSize (drop (nat (clearCount defaultConfig (run defaultConfig startOps)))
                   (attentionField (run defaultConfig startOps))))]
        else []) @
       [AttentionAdd (sort_key timestamp (fst (allocate defaultConfig (run defaultConfig startOps))))
          (attentionField (fst (processPendingActivities defaultConfig (run defaultConfig startOps))))
          (currentSize (fst (processPendingActivities defaultConfig (run defaultConfig startOps))))
          (maxSize defaultConfig)
          (if maxSize defaultConfig = 0 then None
           else Some (of_nat (currentSize (fst (processPendingActivities defaultConfig
                        (run defaultConfig startOps)))) / maxSize defaultConfig))]"
    by blast
  then have a: "snd (processPendingActivities defaultConfig (run defaultConfig startOps)) =
     [AttentionAdd [] [] 0 10000 (Some 0)]"
    using n1 by (simp add: e1 e2 e3 e4)
  have h2: "hubPort (run smallField evictionOps) = Some ''attention''" by code_simp
  have h3: "0 \<le> clearPercentage smallField" by code_simp
  have o: "overflows smallField (run smallField evictionOps)" by code_simp
  have c: "clearCount smallField (run smallField evictionOps) = 5" by code_simp
  have nz: "clearCount smallField (run smallField evictionOps) \<noteq> 0" using c by simp
  from tick_notifications [OF h2, of smallField] h3 o nz
  have l: "length (attentionField (fst (processPendingActivities smallField (run smallField evictionOps))))
     < length (attentionField (run smallField evictionOps)) +
       length (fst (allocate smallField (run smallField evictionOps)))"
    by blast
  have b: "map clearedCount (butlast (snd (processPendingActivities smallField (run smallField evictionOps))))
     = [5]" by code_simp
  from h1 c1 a h2 h3 o c l b show ?thesis by blast
qed

section \<open>Properties of the hub\<close>

lemma matchedHandlers_wellBehaved:
  "\<forall>h \<in> set hs. wellBehaved h a \<Longrightarrow>
     matchedHandlers hs a = Inr (filter (\<lambda>h. isMatch h a = Inr True) hs)"
  by (induction hs) (auto simp: wellBehaved_def)

lemma invokeAll_wellBehaved:
  "\<forall>h \<in> set hs. wellBehaved h a \<Longrightarrow>
     outcome (invokeAll hs a) = Inr () \<and> invoked (invokeAll hs a) = hs"
  by (induction hs) (auto simp: wellBehaved_def Let_def)

lemma appendActivity_stopped:
  "\<not> running hub \<Longrightarrow>
     appendActivity hub a = (Inr (), hub\<lparr>logger := logger hub @ [WarnNotStarted]\<rparr>, [])"
  by (simp add: appendActivity_def)

lemma appendActivity_running:
  assumes "running hub" and "\<forall>h \<in> set (all_handlers hub). wellBehaved h a"
  shows "fst (appendActivity hub a) = Inr ()"
    and "snd (snd (appendActivity hub a)) = filter (\<lambda>h. isMatch h a = Inr True) (all_handlers hub)"
proof -
  have m: "matchedHandlers (all_handlers hub) a =
             Inr (filter (\<lambda>h. isMatch h a = Inr True) (all_handlers hub))"
    using assms(2) by (rule matchedHandlers_wellBehaved)
  have "\<forall>h \<in> set (filter (\<lambda>h. isMatch h a = Inr True) (all_handlers hub)). wellBehaved h a"
    using assms(2) by simp
  from invokeAll_wellBehaved [OF this] m assms(1)
  show "fst (appendActivity hub a) = Inr ()"
    and "snd (snd (appendActivity hub a)) = filter (\<lambda>h. isMatch h a = Inr True) (all_handlers hub)"
    by (simp_all add: appendActivity_def triggerHandlers_def Let_def)
qed

lemma triggerHandlers_faculties [simp]:
  "triggerHandlers (hub\<lparr>faculties := F\<rparr>) a = triggerHandlers hub a"
  by (simp add: triggerHandlers_def)

text \<open>
  C4, evaluated where the code departs from it: two handlers match the activity, the first
  throws from \<^verbatim>\<open>handle\<close> before returning a promise.  The throw reaches the publisher
  of \<^verbatim>\<open>appendActivity\<close> and the second handler is never invoked.  With a first handler
  whose promise rejects instead, the call returns and both handlers are invoked.
\<close>

theorem synchronous_throw_escapes:
  "running faultyHub \<and>
   map description (all_handlers faultyHub) = [''faulty'', ''healthy''] \<and>
   handle throwingHandler plainActivity = Thrown ''boom'' \<and>
   isMatch throwingHandler plainActivity = Inr True \<and>
   isMatch healthyHandler plainActivity = Inr True \<and>
   fst (appendActivity faultyHub plainActivity) = Inl (Failure ''boom'') \<and>
   map description (snd (snd (appendActivity faultyHub plainActivity))) = [''faulty''] \<and>
   handle rejectingHandler plainActivity = Rejected ''late'' \<and>
   fst (appendActivity isolatingHub plainActivity) = Inr () \<and>
   map description (snd (snd (appendActivity isolatingHub plainActivity))) =
     [''rejecting'', ''healthy'']"
  by (simp add: appendActivity_def triggerHandlers_def faultyHub_def isolatingHub_def
      throwingHandler_def healthyHandler_def rejectingHandler_def plainActivity_def
      isMatch_def matchCondition_def Let_def)

text \<open>
  C7: \<^verbatim>\<open>appendActivity\<close> on a hub that is not running invokes no handler, does not
  throw and changes nothing of the hub but its log, which gains the warning.  On a running
  hub the dispatch is the same whatever the set of registered faculties is, and when no
  handler throws synchronously on the activity, the handlers invoked are exactly the
  matching ones.
\<close>

theorem appendActivity_stopped_or_permissive:
  "(\<not> running hub \<longrightarrow>
      appendActivity hub a = (Inr (), hub\<lparr>logger := logger hub @ [WarnNotStarted]\<rparr>, [])) \<and>
   (running hub \<longrightarrow>
      fst (appendActivity (hub\<lparr>faculties := F\<rparr>) a) = fst (appendActivity hub a) \<and>
      snd (snd (appendActivity (hub\<lparr>faculties := F\<rparr>) a)) = snd (snd (appendActivity hub a))) \<and>
   (running hub \<and> (\<forall>h \<in> set (all_handlers hub). wellBehaved h a) \<longrightarrow>
      fst (appendActivity hub a) = Inr () \<and>
      snd (snd (appendActivity hub a)) =
        filter (\<lambda>h. isMatch h a = Inr True) (all_handlers hub))"
proof -
  have s: "\<not> running hub \<Longrightarrow>
      appendActivity hub a = (Inr (), hub\<lparr>logger := logger hub @ [WarnNotStarted]\<rparr>, [])"
    by (rule appendActivity_stopped)
  have f: "running hub \<Longrightarrow>
      fst (appendActivity (hub\<lparr>faculties := F\<rparr>) a) = fst (appendActivity hub a) \<and>
      snd (snd (appendActivity (hub\<lparr>faculties := F\<rparr>) a)) = snd (snd (appendActivity hub a))"
    by (simp add: appendActivity_def Let_def)
  have w: "running hub \<and> (\<forall>h \<in> set (all_handlers hub). wellBehaved h a) \<Longrightarrow>
      fst (appendActivity hub a) = Inr () \<and>
      snd (snd (appendActivity hub a)) =
        filter (\<lambda>h. isMatch h a = Inr True) (all_handlers hub)"
    using appendActivity_running [of hub a] by blast
  from s f w show ?thesis by blast
qed

theorem appendActivity_stopped_or_permissive_witness:
  "\<not> running (faultyHub\<lparr>running := False\<rparr>) \<and>
   appendActivity (faultyHub\<lparr>running := False\<rparr>) plainActivity =
     (Inr (), faultyHub\<lparr>running := False,
                         logger := logger (faultyHub\<lparr>running := False\<rparr>) @ [WarnNotStarted]\<rparr>, []) \<and>
   running isolatingHub \<and>
   activity_role plainActivity \<notin> faculties isolatingHub \<and>
   wellBehaved rejectingHandler plainActivity \<and> wellBehaved healthyHandler plainActivity \<and>
   fst (appendActivity isolatingHub plainActivity) = Inr () \<and>
   snd (snd (appendActivity isolatingHub plainActivity)) =
     filter (\<lambda>h. isMatch h plainActivity = Inr True) (all_handlers isolatingHub) \<and>
   map description (filter (\<lambda>h. isMatch h plainActivity = Inr True) (all_handlers isolatingHub)) =
     [''rejecting'', ''healthy'']"
proof -
  have h1: "\<not> running (faultyHub\<lparr>running := False\<rparr>)" by simp
  have h2: "running isolatingHub" by (simp add: isolatingHub_def)
  have u: "activity_role plainActivity \<notin> faculties isolatingHub"
    by (simp add: isolatingHub_def plainActivity_def)
  have w1: "wellBehaved rejectingHandler plainActivity"
    by (simp add: wellBehaved_def rejectingHandler_def isMatch_def matchCondition_def)
  have w2: "wellBehaved healthyHandler plainActivity"
    by (simp add: wellBehaved_def healthyHandler_def isMatch_def matchCondition_def plainActivity_def)
  have h3: "\<forall>h \<in> set (all_handlers isolatingHub). wellBehaved h plainActivity"
    using w1 w2 by (simp add: isolatingHub_def)
  have m: "map description (filter (\<lambda>h. isMatch h plainActivity = Inr True) (all_handlers isolatingHub)) =
     [''rejecting'', ''healthy'']"
    by (simp add: isolatingHub_def rejectingHandler_def healthyHandler_def isMatch_def
        matchCondition_def plainActivity_def)
  from appendActivity_stopped_or_permissive [of "faultyHub\<lparr>running := False\<rparr>" plainActivity "{}"] h1
  have a: "appendActivity (faultyHub\<lparr>running := False\<rparr>) plainActivity =
     (Inr (), faultyHub\<lparr>running := False,
                         logger := logger (faultyHub\<lparr>running := False\<rparr>) @ [WarnNotStarted]\<rparr>, [])"
    by simp
  from appendActivity_stopped_or_permissive [of isolatingHub plainActivity "{}"] h2 h3
  have b: "fst (appendActivity isolatingHub plainActivity) = Inr () \<and>
      snd (snd (appendActivity isolatingHub plainActivity)) =
        filter (\<lambda>h. isMatch h plainActivity = Inr True) (all_handlers isolatingHub)"
    by blast
  from h1 a h2 u w1 w2 b m show ?thesis by blast
qed

end
